theory Spec2Isabelle
  imports Main "HOL-Library.Char_ord" "HOL-Library.List_Lexorder"
begin

section \<open>Documents and JavaScript objects\<close>

text \<open>
  A document source is a JSON object. It is modelled by its leaf fields, flattened to
  dotted paths (\<open>class.termId\<close>, \<open>type\<close>), each with one string value, in the order
  of the object's own keys. A character is a code point below 256, so the order of
  \<open>HOL-Library.Char_ord\<close> lifted to lists is the engine's order on keyword values.

  The \<open>map\<close> argument of the bulk functions is a JavaScript object from document ids to
  sources: the list of its entries in \<open>Object.keys\<close> order.
\<close>

type_synonym source = "(string \<times> string) list"

type_synonym js_map = "(string \<times> source) list"

definition Object_keys :: "js_map \<Rightarrow> string list" where
  "Object_keys m = map fst m"

text \<open>\<open>map[id]\<close>: the value of an own key, \<open>None\<close> for JavaScript's \<open>undefined\<close>.\<close>

definition js_get :: "js_map \<Rightarrow> string \<Rightarrow> source option" where
  "js_get m k = map_of m k"

text \<open>\<open>_.chunk(array, size)\<close> of lodash: groups of \<open>size\<close> elements, the last one
  holding what is left; no group for an empty array or a size below one.\<close>

function chunk :: "'a list \<Rightarrow> nat \<Rightarrow> 'a list list" where
  "chunk xs n = (if n = 0 \<or> xs = [] then [] else take n xs # chunk (drop n xs) n)"
  by pat_completeness auto
termination
  by (relation "measure (\<lambda>(xs, n). length xs)") auto

declare chunk.simps [simp del]

text \<open>\<open>String.prototype.toLowerCase\<close> on code points below 256.\<close>

definition lower_char :: "char \<Rightarrow> char" where
  "lower_char ch =
     (let n = (of_char ch :: nat)
      in if (65 \<le> n \<and> n \<le> 90) \<or> (192 \<le> n \<and> n \<le> 222 \<and> n \<noteq> 215)
         then char_of (n + 32) else ch)"

definition toLowerCase :: "string \<Rightarrow> string" where
  "toLowerCase s = map lower_char s"

section \<open>The requests of the client\<close>

text \<open>
  The functions of \<open>elastic.js\<close> build requests and hand them to the client of the index
  engine. Each request shape the modelled functions build is a constructor of
  \<open>request\<close>; a field of a request carries the value the source writes there.
\<close>

datatype refresh = WaitFor

datatype bulk_line =
    IndexLine string
  | UpdateLine string
  | SourceLine "source option"
  | DocLine "source option"

datatype sort_order = Asc | Desc

datatype sort_key = ByScore | ByField string sort_order

datatype mm_type = MostFields

record multi_match =
  mm_query :: string
  mm_type :: mm_type
  mm_fields :: "string list option"

datatype term_clause = Term string string

text \<open>
  The body of \<open>search\<close>: \<open>sort\<close>, and a \<open>bool\<close> query whose \<open>must\<close> is one
  \<open>multi_match\<close> and whose \<open>filter\<close> is a \<open>bool\<close> of \<open>should\<close> clauses only.
\<close>

record search_request =
  sr_index :: string
  sr_from :: int
  sr_size :: int
  sr_sort :: "sort_key list"
  sr_must :: multi_match
  sr_filter_should :: "term_clause list"

datatype request =
    BulkRequest string "refresh option" "bulk_line list"
  | MgetRequest string "string list"
  | SearchRequest search_request
  | TermsAggRequest string string nat

datatype error = ConnectionError | BadRequest | IndexNotFound

section \<open>The index engine\<close>

text \<open>
  The engine is an external collaborator of the program. It is modelled as far as the
  requests above need it, following the semantics the engine documents for them.

  An index has two views of its documents: \<open>live\<close>, which every write changes at once and
  which the realtime \<open>mget\<close> reads, and \<open>searchable\<close>, which searches and aggregations
  read and which a refresh brings up to date with \<open>live\<close>. The periodic refresh of the
  engine is a matter of time and is not modelled: here only a write that asks for
  \<open>refresh\<close> refreshes.

  \<open>faults\<close> is the schedule of infrastructure failures: one entry is consumed by each
  request, and the request fails when the entry is \<open>True\<close>. \<open>sent\<close> is the list of
  requests the client has issued so far.
\<close>

record index =
  searchable :: "(string \<times> source) list"
  live :: "(string \<times> source) list"

record cluster =
  indices :: "string \<Rightarrow> index option"
  faults :: "bool list"
  sent :: "request list"

definition transport :: "request \<Rightarrow> cluster \<Rightarrow> bool \<times> cluster" where
  "transport r c =
     (case faults c of
        [] \<Rightarrow> (True, c\<lparr>sent := sent c @ [r]\<rparr>)
      | f # fs \<Rightarrow> (\<not> f, c\<lparr>faults := fs, sent := sent c @ [r]\<rparr>))"

text \<open>\<open>delivered c\<close>: the next request issued to the cluster gets through.\<close>

definition delivered :: "cluster \<Rightarrow> bool" where
  "delivered c = (case faults c of [] \<Rightarrow> True | f # fs \<Rightarrow> \<not> f)"

text \<open>\<open>first_fault c\<close>: how many requests get through before one fails, when the
  schedule has a failure.\<close>

definition first_fault :: "cluster \<Rightarrow> nat option" where
  "first_fault c =
     (let d = length (takeWhile Not (faults c))
      in if d < length (faults c) then Some d else None)"

subsection \<open>Fields\<close>

text \<open>
  The mapping of the index is not part of these sources. A string field \<open>f\<close> has the
  sub-field \<open>f.keyword\<close> with the same, unanalysed value, as the source takes for
  granted of \<open>class.classId\<close>, \<open>class.subject\<close>, \<open>class.termId\<close> and \<open>class.host\<close>; a
  field name in a \<open>multi_match\<close> may carry a boost, \<open>f^2\<close>.
\<close>

definition base_field :: "string \<Rightarrow> string" where
  "base_field f =
     (if 8 < length f \<and> drop (length f - 8) f = ''.keyword''
      then take (length f - 8) f else f)"

definition field_value :: "source \<Rightarrow> string \<Rightarrow> string option" where
  "field_value d f = map_of d (base_field f)"

definition keyword_field :: "string \<Rightarrow> bool" where
  "keyword_field f = (base_field f \<noteq> f)"

definition field_name :: "string \<Rightarrow> string" where
  "field_name f = takeWhile (\<lambda>ch. ch \<noteq> CHR ''^'') f"

subsection \<open>Queries\<close>

text \<open>
  Text analysis and relevance scoring are the engine's own and are parameters of the
  model: \<open>tokens an f text\<close> are the terms the analyser of the text field \<open>f\<close> makes of
  a text, \<open>relevance an q fields d\<close> is the \<open>_score\<close> of a document that matches. A
  keyword field is not analysed: the one term of a text is the text itself, also when
  it is empty.

  A \<open>multi_match\<close> matches a document when, for one of the searched fields, a term of
  the query is a term of the field of the document; on a field where the query has no
  term it matches nothing (\<open>zero_terms_query\<close> is left at \<open>none\<close>). Without \<open>fields\<close>
  every field is searched, the keyword sub-fields included. A \<open>term\<close> clause matches a
  document whose field has exactly that value. A \<open>bool\<close> of \<open>should\<close> clauses only
  matches when at least one of them does.
\<close>

record 's analysis =
  tokens :: "string \<Rightarrow> string \<Rightarrow> string list"
  relevance :: "string \<Rightarrow> string list option \<Rightarrow> source \<Rightarrow> 's"

definition field_terms :: "'s analysis \<Rightarrow> string \<Rightarrow> string \<Rightarrow> string list" where
  "field_terms an f text = (if keyword_field f then [text] else tokens an f text)"

definition mm_targets :: "multi_match \<Rightarrow> source \<Rightarrow> string list" where
  "mm_targets mm d =
     (case mm_fields mm of
        None \<Rightarrow> concat (map (\<lambda>kv. [fst kv, fst kv @ ''.keyword'']) d)
      | Some fs \<Rightarrow> map field_name fs)"

definition field_matches :: "'s analysis \<Rightarrow> string \<Rightarrow> source \<Rightarrow> string \<Rightarrow> bool" where
  "field_matches an q d f =
     (case field_value d f of
        None \<Rightarrow> False
      | Some v \<Rightarrow> list_ex (\<lambda>t. t \<in> set (field_terms an f v)) (field_terms an f q))"

definition mm_matches :: "'s analysis \<Rightarrow> multi_match \<Rightarrow> source \<Rightarrow> bool" where
  "mm_matches an mm d = list_ex (field_matches an (mm_query mm) d) (mm_targets mm d)"

fun term_matches :: "source \<Rightarrow> term_clause \<Rightarrow> bool" where
  "term_matches d (Term f v) = (field_value d f = Some v)"

definition should_matches :: "term_clause list \<Rightarrow> source \<Rightarrow> bool" where
  "should_matches cs d = list_ex (term_matches d) cs"

definition eligible :: "'s analysis \<Rightarrow> search_request \<Rightarrow> source \<Rightarrow> bool" where
  "eligible an r d = (mm_matches an (sr_must r) d \<and> should_matches (sr_filter_should r) d)"

subsection \<open>Sorting and paging\<close>

text \<open>
  \<open>key_lt k a b\<close>: hit \<open>a\<close> comes strictly before hit \<open>b\<close> on the sort key \<open>k\<close>.
  \<open>_score\<close> sorts descending; a field sorts by its keyword value in the given order, and
  a document without the field comes last in both orders. Hits are compared key by key;
  hits equal on every key stay in index order.
\<close>

record 's hit =
  hit_id :: string
  hit_source :: source
  hit_score :: 's

fun key_lt :: "sort_key \<Rightarrow> ('s::linorder) hit \<Rightarrow> 's hit \<Rightarrow> bool" where
  "key_lt ByScore a b = (hit_score b < hit_score a)"
| "key_lt (ByField f ord) a b =
     (case (field_value (hit_source a) f, field_value (hit_source b) f) of
        (Some x, Some y) \<Rightarrow> (case ord of Asc \<Rightarrow> x < y | Desc \<Rightarrow> y < x)
      | (Some x, None) \<Rightarrow> True
      | (None, _) \<Rightarrow> False)"

fun before :: "sort_key list \<Rightarrow> ('s::linorder) hit \<Rightarrow> 's hit \<Rightarrow> bool" where
  "before [] a b = True"
| "before (k # ks) a b = (key_lt k a b \<or> (\<not> key_lt k b a \<and> before ks a b))"

fun insert_hit :: "sort_key list \<Rightarrow> ('s::linorder) hit \<Rightarrow> 's hit list \<Rightarrow> 's hit list" where
  "insert_hit ks h [] = [h]"
| "insert_hit ks h (x # xs) =
     (if before ks h x then h # x # xs else x # insert_hit ks h xs)"

fun sort_hits :: "sort_key list \<Rightarrow> ('s::linorder) hit list \<Rightarrow> 's hit list" where
  "sort_hits ks [] = []"
| "sort_hits ks (h # hs) = insert_hit ks h (sort_hits ks hs)"

record 's search_response =
  hits :: "'s hit list"
  total :: nat

definition to_hit :: "'s analysis \<Rightarrow> search_request \<Rightarrow> string \<times> source \<Rightarrow> 's hit" where
  "to_hit an r e =
     \<lparr>hit_id = fst e, hit_source = snd e,
      hit_score = relevance an (mm_query (sr_must r)) (mm_fields (sr_must r)) (snd e)\<rparr>"

definition matching :: "'s analysis \<Rightarrow> search_request \<Rightarrow> index \<Rightarrow> (string \<times> source) list" where
  "matching an r idx = filter (\<lambda>e. eligible an r (snd e)) (searchable idx)"

definition run_search ::
  "('s::linorder) analysis \<Rightarrow> search_request \<Rightarrow> index \<Rightarrow> 's search_response" where
  "run_search an r idx =
     \<lparr>hits = take (nat (sr_size r))
               (drop (nat (sr_from r))
                 (sort_hits (sr_sort r) (map (to_hit an r) (matching an r idx)))),
      total = min (length (matching an r idx)) 10000\<rparr>"

text \<open>A search of an index that does not exist, or with a negative \<open>from\<close> or
  \<open>size\<close>, is rejected.\<close>

definition es_search ::
  "('s::linorder) analysis \<Rightarrow> search_request \<Rightarrow> cluster
     \<Rightarrow> (error + 's search_response) \<times> cluster" where
  "es_search an r c =
     (case transport (SearchRequest r) c of
        (False, c') \<Rightarrow> (Inl ConnectionError, c')
      | (True, c') \<Rightarrow>
          (case indices c' (sr_index r) of
             None \<Rightarrow> (Inl IndexNotFound, c')
           | Some idx \<Rightarrow>
               if sr_from r < 0 \<or> sr_size r < 0 then (Inl BadRequest, c')
               else (Inr (run_search an r idx), c')))"

subsection \<open>Bulk writes\<close>

text \<open>
  A bulk body is a sequence of pairs: an action line and its payload. \<open>index\<close> stores
  the payload as the whole document of that id; \<open>update\<close> merges the fields of \<open>doc\<close>
  into the document of that id, and fails for that item alone when there is no such
  document. Either way the written document is the newest of the index. A body that is
  empty or does not parse is rejected; a missing index is created. With
  \<open>refresh: 'wait_for'\<close> the call returns once a refresh has made the index searchable
  up to this write; without \<open>refresh\<close> the write stays out of \<open>searchable\<close>.
\<close>

datatype bulk_op = IndexOp string source | UpdateOp string source

fun parse_bulk :: "bulk_line list \<Rightarrow> bulk_op list option" where
  "parse_bulk [] = Some []"
| "parse_bulk (IndexLine i # SourceLine (Some s) # rest) =
     map_option ((#) (IndexOp i s)) (parse_bulk rest)"
| "parse_bulk (UpdateLine i # DocLine (Some s) # rest) =
     map_option ((#) (UpdateOp i s)) (parse_bulk rest)"
| "parse_bulk _ = None"

fun assign :: "'k \<Rightarrow> 'v \<Rightarrow> ('k \<times> 'v) list \<Rightarrow> ('k \<times> 'v) list" where
  "assign k v [] = [(k, v)]"
| "assign k v (e # es) = (if fst e = k then (k, v) # es else e # assign k v es)"

fun merge_source :: "source \<Rightarrow> source \<Rightarrow> source" where
  "merge_source d [] = d"
| "merge_source d (kv # part) = merge_source (assign (fst kv) (snd kv) d) part"

definition put_doc :: "string \<Rightarrow> source \<Rightarrow> (string \<times> source) list \<Rightarrow> (string \<times> source) list" where
  "put_doc i s ds = filter (\<lambda>e. fst e \<noteq> i) ds @ [(i, s)]"

fun apply_op :: "(string \<times> source) list \<Rightarrow> bulk_op \<Rightarrow> (string \<times> source) list" where
  "apply_op ds (IndexOp i s) = put_doc i s ds"
| "apply_op ds (UpdateOp i part) =
     (case map_of ds i of None \<Rightarrow> ds | Some old \<Rightarrow> put_doc i (merge_source old part) ds)"

definition write_index :: "refresh option \<Rightarrow> bulk_op list \<Rightarrow> index option \<Rightarrow> index" where
  "write_index rf ops old =
     (let before_write = (case old of None \<Rightarrow> \<lparr>searchable = [], live = []\<rparr> | Some i \<Rightarrow> i);
          written = foldl apply_op (live before_write) ops
      in \<lparr>searchable = (case rf of None \<Rightarrow> searchable before_write | Some WaitFor \<Rightarrow> written),
          live = written\<rparr>)"

definition es_bulk ::
  "string \<Rightarrow> refresh option \<Rightarrow> bulk_line list \<Rightarrow> cluster \<Rightarrow> (error + unit) \<times> cluster" where
  "es_bulk idx rf body c =
     (case transport (BulkRequest idx rf body) c of
        (False, c') \<Rightarrow> (Inl ConnectionError, c')
      | (True, c') \<Rightarrow>
          (case (if body = [] then None else parse_bulk body) of
             None \<Rightarrow> (Inl BadRequest, c')
           | Some ops \<Rightarrow>
               (Inr (), c'\<lparr>indices := (indices c')(idx \<mapsto> write_index rf ops (indices c' idx))\<rparr>)))"

subsection \<open>Multi-get and the terms aggregation\<close>

text \<open>
  \<open>mget\<close> answers with one entry for each requested id, in the order of the request:
  the source when the index has a document of that id, and \<open>found: false\<close> otherwise
  (also for every id when there is no such index). It reads the \<open>live\<close> view.
\<close>

datatype mget_doc = Found string source | Missing string

definition stored_source :: "index option \<Rightarrow> string \<Rightarrow> source option" where
  "stored_source idx i = (case idx of None \<Rightarrow> None | Some ix \<Rightarrow> map_of (live ix) i)"

definition mget_entry :: "index option \<Rightarrow> string \<Rightarrow> mget_doc" where
  "mget_entry idx i =
     (case stored_source idx i of None \<Rightarrow> Missing i | Some s \<Rightarrow> Found i s)"

definition es_mget :: "string \<Rightarrow> string list \<Rightarrow> cluster \<Rightarrow> (error + mget_doc list) \<times> cluster" where
  "es_mget idx ids c =
     (case transport (MgetRequest idx ids) c of
        (False, c') \<Rightarrow> (Inl ConnectionError, c')
      | (True, c') \<Rightarrow> (Inr (map (mget_entry (indices c' idx)) ids), c'))"







section \<open>The class \<open>Elastic\<close>\<close>

text \<open>
  The instance holds two constants and the cache of subjects, \<open>null\<close> (here \<open>None\<close>)
  until the first computation. A function of the class takes the cluster, and the
  instance when it reads or writes the cache, and returns them with its result; a
  rejected promise is \<open>Inl\<close>. Modelled are \<open>bulkIndexFromMap\<close>, \<open>bulkUpdateFromMap\<close>,
  \<open>getMapFromIDs\<close>, \<open>getSubjectsFromClasses\<close> and \<open>search\<close>.
\<close>

definition CLASS_INDEX :: string where
  "CLASS_INDEX = ''classes''"

definition EMPLOYEE_INDEX :: string where
  "EMPLOYEE_INDEX = ''employees''"



subsection \<open>\<open>bulkIndexFromMap\<close> and \<open>bulkUpdateFromMap\<close>\<close>

definition index_lines :: "js_map \<Rightarrow> string list \<Rightarrow> bulk_line list" where
  "index_lines m part = concat (map (\<lambda>i. [IndexLine i, SourceLine (js_get m i)]) part)"

text \<open>The chain \<open>promises.then(...)\<close>: a request is issued when the one before it has
  succeeded; after a failure no further request is issued and the failure is the
  result.\<close>

fun bulk_chain :: "string \<Rightarrow> bulk_line list list \<Rightarrow> cluster \<Rightarrow> (error + unit) \<times> cluster" where
  "bulk_chain idx [] c = (Inr (), c)"
| "bulk_chain idx (b # bs) c =
     (case es_bulk idx (Some WaitFor) b c of
        (Inl e, c') \<Rightarrow> (Inl e, c')
      | (Inr u, c') \<Rightarrow> bulk_chain idx bs c')"

definition bulkIndexFromMap :: "string \<Rightarrow> js_map \<Rightarrow> cluster \<Rightarrow> (error + unit) \<times> cluster" where
  "bulkIndexFromMap indexName m c =
     bulk_chain indexName (map (index_lines m) (chunk (Object_keys m) 100)) c"

definition update_lines :: "js_map \<Rightarrow> bulk_line list" where
  "update_lines m = concat (map (\<lambda>i. [UpdateLine i, DocLine (js_get m i)]) (Object_keys m))"

definition bulkUpdateFromMap :: "string \<Rightarrow> js_map \<Rightarrow> cluster \<Rightarrow> (error + unit) \<times> cluster" where
  "bulkUpdateFromMap indexName m c = es_bulk indexName None (update_lines m) c"

subsection \<open>\<open>getMapFromIDs\<close>\<close>

fun collect_found :: "js_map \<Rightarrow> mget_doc \<Rightarrow> js_map" where
  "collect_found result (Found i s) = assign i s result"
| "collect_found result (Missing i) = result"

definition getMapFromIDs :: "string \<Rightarrow> string list \<Rightarrow> cluster \<Rightarrow> (error + js_map) \<times> cluster" where
  "getMapFromIDs indexName ids c =
     (case es_mget indexName ids c of
        (Inl e, c') \<Rightarrow> (Inl e, c')
      | (Inr docs, c') \<Rightarrow> (Inr (foldl collect_found [] docs), c'))"

subsection \<open>\<open>getSubjectsFromClasses\<close>\<close>






subsection \<open>\<open>search\<close>\<close>

text \<open>
  An element of \<open>searchContent\<close> is \<open>{ ...hit._source, score: hit._score }\<close>: the
  fields of the source, a top-level \<open>score\<close> of its own (with what is nested in it)
  giving way to the score of the hit. \<open>took\<close>, a duration, is left out of the result.
\<close>

record 's content =
  doc :: source
  score :: 's

record 's search_result =
  searchContent :: "'s content list"
  resultCount :: nat

definition search_request ::
  "string \<Rightarrow> string \<Rightarrow> int \<Rightarrow> int \<Rightarrow> string list option \<Rightarrow> search_request" where
  "search_request query termId mn mx searchFields =
     \<lparr>sr_index = CLASS_INDEX,
      sr_from = mn,
      sr_size = mx - mn,
      sr_sort = [ByScore, ByField ''class.classId.keyword'' Asc],
      sr_must = \<lparr>mm_query = query, mm_type = MostFields, mm_fields = searchFields\<rparr>,
      sr_filter_should = [Term ''class.termId'' termId, Term ''type'' ''employee'']\<rparr>"

definition under_score :: "string \<Rightarrow> bool" where
  "under_score path = (path = ''score'' \<or> take 6 path = ''score.'')"

definition to_content :: "'s hit \<Rightarrow> 's content" where
  "to_content h =
     \<lparr>doc = filter (\<lambda>kv. \<not> under_score (fst kv)) (hit_source h), score = hit_score h\<rparr>"

definition search ::
  "('s::linorder) analysis \<Rightarrow> string \<Rightarrow> string \<Rightarrow> int \<Rightarrow> int \<Rightarrow> string list option
     \<Rightarrow> cluster \<Rightarrow> (error + 's search_result) \<times> cluster" where
  "search an query termId mn mx searchFields c =
     (case es_search an (search_request query termId mn mx searchFields) c of
        (Inl e, c') \<Rightarrow> (Inl e, c')
      | (Inr searchOutput, c') \<Rightarrow>
          (Inr \<lparr>searchContent = map to_content (hits searchOutput),
                resultCount = total searchOutput\<rparr>, c'))"

section \<open>Sample data\<close>

text \<open>
  A sample analyser and scorer, used where a statement is evaluated on concrete data:
  a text is lowercased and split at spaces, and the score of a document is the number of
  searched fields in which it matches the query (more matching fields, higher score).
\<close>

fun words_from :: "string \<Rightarrow> string \<Rightarrow> string list" where
  "words_from w [] = (if w = [] then [] else [w])"
| "words_from w (ch # cs) =
     (if ch = CHR '' '' then (if w = [] then words_from [] cs else w # words_from [] cs)
      else words_from (w @ [ch]) cs)"

definition sample_tokens :: "string \<Rightarrow> string \<Rightarrow> string list" where
  "sample_tokens f text = words_from [] (toLowerCase text)"

definition sample_terms :: "string \<Rightarrow> string \<Rightarrow> string list" where
  "sample_terms f text = (if keyword_field f then [text] else sample_tokens f text)"

definition sample_relevance :: "string \<Rightarrow> string list option \<Rightarrow> source \<Rightarrow> nat" where
  "sample_relevance q fs d =
     length (filter
       (\<lambda>f. case field_value d f of
              None \<Rightarrow> False
            | Some v \<Rightarrow> list_ex (\<lambda>t. t \<in> set (sample_terms f v)) (sample_terms f q))
       (case fs of
          None \<Rightarrow> concat (map (\<lambda>kv. [fst kv, fst kv @ ''.keyword'']) d)
        | Some given \<Rightarrow> map field_name given))"

definition sample_analysis :: "nat analysis" where
  "sample_analysis = \<lparr>tokens = sample_tokens, relevance = sample_relevance\<rparr>"

definition cluster_of :: "(string \<times> source) list \<Rightarrow> cluster" where
  "cluster_of ds =
     \<lparr>indices = [CLASS_INDEX \<mapsto> \<lparr>searchable = ds, live = ds\<rparr>], faults = [], sent = []\<rparr>"

definition fundies :: source where
  "fundies =
     [(''type'', ''class''), (''class.termId'', ''202010''), (''class.subject'', ''CS''),
      (''class.classId'', ''2500''), (''class.name'', ''Fundies 1''),
      (''class.scheduleType'', ''Lecture''), (''class.crn'', ''10460'')]"

definition fundies_lab :: source where
  "fundies_lab =
     [(''type'', ''class''), (''class.termId'', ''202010''), (''class.subject'', ''CS''),
      (''class.classId'', ''2501''), (''class.name'', ''Lab for CS 2500''),
      (''class.scheduleType'', ''Lab''), (''class.crn'', ''10461'')]"

definition fundies_2019 :: source where
  "fundies_2019 =
     [(''type'', ''class''), (''class.termId'', ''201930''), (''class.subject'', ''CS''),
      (''class.classId'', ''2500''), (''class.name'', ''Fundies 1''),
      (''class.scheduleType'', ''Lecture''), (''class.crn'', ''30211'')]"

definition mislove :: source where
  "mislove =
     [(''type'', ''employee''), (''employee.name'', ''Alan Mislove''),
      (''employee.emails'', ''a.mislove@northeastern.edu'')]"

definition sample_docs :: "(string \<times> source) list" where
  "sample_docs =
     [(''neu.edu/202010/CS/2500'', fundies), (''neu.edu/201930/CS/2500'', fundies_2019),
      (''mislove'', mislove)]"

definition sample_cluster :: cluster where
  "sample_cluster = cluster_of sample_docs"

definition topics_900 :: source where
  "topics_900 =
     [(''type'', ''class''), (''class.termId'', ''202010''), (''class.classId'', ''900''),
      (''class.name'', ''Topics'')]"

definition topics_2500 :: source where
  "topics_2500 =
     [(''type'', ''class''), (''class.termId'', ''202010''), (''class.classId'', ''2500''),
      (''class.name'', ''Topics'')]"

definition topics_cluster :: cluster where
  "topics_cluster = cluster_of [(''t900'', topics_900), (''t2500'', topics_2500)]"

definition lab_cluster :: cluster where
  "lab_cluster =
     cluster_of [(''neu.edu/202010/CS/2500'', fundies), (''neu.edu/202010/CS/2501'', fundies_lab)]"

text \<open>The number a string of decimal digits denotes: the order the specification
  speaks of for class identifiers, to compare with the order of the engine.\<close>

definition number_of :: "string \<Rightarrow> nat" where
  "number_of s = foldl (\<lambda>n ch. 10 * n + (of_char ch - 48)) 0 s"



definition many_ids :: "string list" where
  "many_ids = concat (map (\<lambda>a. map (\<lambda>b. [a, b]) ''abcdefghijklmno'') ''abcdefghijklmno'')"

definition many_docs :: js_map where
  "many_docs = map (\<lambda>i. (i, [(''type'', ''class'')])) many_ids"

definition renamed :: js_map where
  "renamed = [(''t900'', [(''class.name'', ''Seminar'')])]"

definition calculus :: source where
  "calculus =
     [(''type'', ''class''), (''class.termId'', ''202010''), (''class.classId'', ''1341''),
      (''class.name'', ''Calculus 1''), (''class.desc'', '''')]"

definition calculus_cluster :: cluster where
  "calculus_cluster = cluster_of [(''neu.edu/202010/MATH/1341'', calculus)]"

definition flaky_cluster :: cluster where
  "flaky_cluster = (cluster_of [])\<lparr>faults := [False, True]\<rparr>"


section \<open>Properties of the engine model\<close>

lemma transport_sent: "sent (snd (transport r c)) = sent c @ [r]"
  by (simp add: transport_def split: list.splits)

lemma transport_indices: "indices (snd (transport r c)) = indices c"
  by (simp add: transport_def split: list.splits)

lemma es_search_sent: "sent (snd (es_search an r c)) = sent c @ [SearchRequest r]"
  using transport_sent [of "SearchRequest r" c]
  by (auto simp: es_search_def split: prod.splits bool.splits option.splits)

lemma key_lt_irrefl: "\<not> key_lt k a a"
  by (cases k) (auto split: option.splits sort_order.splits)

lemma key_lt_trans: "key_lt k a b \<Longrightarrow> key_lt k b c \<Longrightarrow> key_lt k a c"
  by (cases k) (auto split: option.splits sort_order.splits)

lemma key_lt_negtrans: "\<not> key_lt k a b \<Longrightarrow> \<not> key_lt k b c \<Longrightarrow> \<not> key_lt k a c"
  by (cases k) (auto split: option.splits sort_order.splits)

lemma key_lt_asym: "key_lt k a b \<Longrightarrow> \<not> key_lt k b a"
  using key_lt_irrefl key_lt_trans by blast

lemma before_total: "before ks a b \<or> before ks b a"
  by (induction ks) (auto dest: key_lt_asym)

lemma before_trans: "before ks a b \<Longrightarrow> before ks b c \<Longrightarrow> before ks a c"
proof (induction ks)
  case Nil
  then show ?case by simp
next
  case (Cons k ks)
  show ?case
  proof (cases "key_lt k a c")
    case True
    then show ?thesis by simp
  next
    case False
    have ab: "\<not> key_lt k a b"
      using False Cons.prems(2) key_lt_trans key_lt_negtrans by (metis before.simps(2))
    have bc: "\<not> key_lt k b c"
      using False Cons.prems(1) key_lt_trans key_lt_negtrans by (metis before.simps(2))
    from ab Cons.prems(1) have 1: "\<not> key_lt k b a" "before ks a b" by auto
    from bc Cons.prems(2) have 2: "\<not> key_lt k c b" "before ks b c" by auto
    from 1 2 have "\<not> key_lt k c a" using key_lt_negtrans by blast
    with 1 2 Cons.IH show ?thesis by simp
  qed
qed

lemma set_insert_hit: "set (insert_hit ks h xs) = insert h (set xs)"
  by (induction xs) auto

lemma set_sort_hits: "set (sort_hits ks xs) = set xs"
  by (induction xs) (auto simp: set_insert_hit)

lemma sorted_insert_hit:
  "sorted_wrt (before ks) xs \<Longrightarrow> sorted_wrt (before ks) (insert_hit ks h xs)"
proof (induction xs)
  case Nil
  then show ?case by simp
next
  case (Cons x xs)
  show ?case
  proof (cases "before ks h x")
    case True
    with Cons.prems show ?thesis by (auto intro: before_trans)
  next
    case False
    then have "before ks x h" using before_total by blast
    with False Cons show ?thesis by (auto simp: set_insert_hit)
  qed
qed

lemma sorted_sort_hits: "sorted_wrt (before ks) (sort_hits ks xs)"
  by (induction xs) (auto intro: sorted_insert_hit)

lemma run_search_hits:
  "h \<in> set (hits (run_search an r ix)) \<Longrightarrow>
     \<exists>e \<in> set (searchable ix). h = to_hit an r e \<and> eligible an r (snd e)"
  by (auto simp: run_search_def matching_def set_sort_hits dest!: in_set_takeD in_set_dropD)

section \<open>Properties of \<open>search\<close>\<close>

lemma search_sent:
  "sent (snd (search an q t mn mx fs c)) =
     sent c @ [SearchRequest (search_request q t mn mx fs)]"
  using es_search_sent [of an "search_request q t mn mx fs" c]
  by (auto simp: search_def split: prod.splits sum.splits)

lemma search_fst:
  "fst (search an q t mn mx fs c) =
     (case fst (es_search an (search_request q t mn mx fs) c) of
        Inl e \<Rightarrow> Inl e
      | Inr out \<Rightarrow> Inr \<lparr>searchContent = map to_content (hits out), resultCount = total out\<rparr>)"
  by (simp add: search_def split: prod.splits sum.splits)

lemma es_search_other_index:
  "k \<noteq> sr_index r \<Longrightarrow>
     fst (es_search an r (c\<lparr>indices := (indices c)(k := e)\<rparr>)) = fst (es_search an r c)"
  by (auto simp: es_search_def transport_def split: list.splits bool.splits option.splits)

lemma search_Inr:
  "fst (search an q t mn mx fs c) = Inr res \<Longrightarrow>
     \<exists>ix. indices c CLASS_INDEX = Some ix \<and> 0 \<le> mn \<and> mn \<le> mx \<and>
       res = \<lparr>searchContent = map to_content (hits (run_search an (search_request q t mn mx fs) ix)),
              resultCount = total (run_search an (search_request q t mn mx fs) ix)\<rparr>"
  using transport_indices [of "SearchRequest (search_request q t mn mx fs)" c]
  by (auto simp: search_def es_search_def search_request_def
      split: prod.splits sum.splits bool.splits option.splits if_splits)

lemma should_matches_search:
  "should_matches (sr_filter_should (search_request q t mn mx fs)) d \<longleftrightarrow>
     field_value d ''class.termId'' = Some t \<or> field_value d ''type'' = Some ''employee''"
  by (simp add: search_request_def should_matches_def)

lemma map_of_without_keys:
  "\<not> P k \<Longrightarrow> map_of (filter (\<lambda>kv. \<not> P (fst kv)) d) k = map_of d k"
  by (induction d) auto

lemma field_value_content:
  "\<not> under_score (base_field f) \<Longrightarrow>
     field_value (doc (to_content h)) f = field_value (hit_source h) f"
  by (simp add: to_content_def field_value_def map_of_without_keys)

text \<open>
  C10. Every search is issued against the index \<open>classes\<close> and no other: the one request
  of a call names that index, which is not the index \<open>employees\<close>; the result does not
  depend on what the index \<open>employees\<close> holds; and every returned document, an employee
  document included, is a document of the index \<open>classes\<close>.
\<close>

theorem search_queries_classes_index_only:
  "sent (snd (search an q t mn mx fs c)) = sent c @ [SearchRequest (search_request q t mn mx fs)]
   \<and> sr_index (search_request q t mn mx fs) = ''classes''
   \<and> sr_index (search_request q t mn mx fs) \<noteq> EMPLOYEE_INDEX
   \<and> fst (search an q t mn mx fs (c\<lparr>indices := (indices c)(EMPLOYEE_INDEX := e)\<rparr>))
       = fst (search an q t mn mx fs c)
   \<and> (\<forall>res. fst (search an q t mn mx fs c) = Inr res \<longrightarrow>
        (\<exists>ix. indices c ''classes'' = Some ix \<and>
           (\<forall>item \<in> set (searchContent res).
              \<exists>stored \<in> set (searchable ix).
                item = to_content (to_hit an (search_request q t mn mx fs) stored))))"
proof (intro conjI allI impI)
  show "sent (snd (search an q t mn mx fs c)) =
          sent c @ [SearchRequest (search_request q t mn mx fs)]"
    by (rule search_sent)
  show "sr_index (search_request q t mn mx fs) = ''classes''"
    by (simp add: search_request_def CLASS_INDEX_def)
  show "sr_index (search_request q t mn mx fs) \<noteq> EMPLOYEE_INDEX"
    by (simp add: search_request_def CLASS_INDEX_def EMPLOYEE_INDEX_def)
  show "fst (search an q t mn mx fs (c\<lparr>indices := (indices c)(EMPLOYEE_INDEX := e)\<rparr>))
          = fst (search an q t mn mx fs c)"
    by (simp add: search_fst es_search_other_index search_request_def
        CLASS_INDEX_def EMPLOYEE_INDEX_def)
next
  fix res
  assume "fst (search an q t mn mx fs c) = Inr res"
  from search_Inr [OF this] obtain ix where ix: "indices c CLASS_INDEX = Some ix"
    and res: "searchContent res =
       map to_content (hits (run_search an (search_request q t mn mx fs) ix))"
    by auto
  have "\<forall>item \<in> set (searchContent res).
          \<exists>stored \<in> set (searchable ix).
            item = to_content (to_hit an (search_request q t mn mx fs) stored)"
    unfolding res using run_search_hits by fastforce
  with ix show "\<exists>ix. indices c ''classes'' = Some ix \<and>
           (\<forall>item \<in> set (searchContent res).
              \<exists>stored \<in> set (searchable ix).
                item = to_content (to_hit an (search_request q t mn mx fs) stored))"
    by (auto simp: CLASS_INDEX_def)
qed

theorem search_queries_classes_index_only_witness:
  "fst (search sample_analysis ''mislove'' ''202010'' 0 10 (Some [''employee.name'']) sample_cluster)
     = Inr \<lparr>searchContent = [\<lparr>doc = mislove, score = 1\<rparr>], resultCount = 1\<rparr>
   \<and> (\<exists>ix. indices sample_cluster ''classes'' = Some ix \<and> (''mislove'', mislove) \<in> set (searchable ix))
   \<and> indices sample_cluster EMPLOYEE_INDEX = None
   \<and> sent (snd (search sample_analysis ''mislove'' ''202010'' 0 10 (Some [''employee.name'']) sample_cluster))
       = [SearchRequest (search_request ''mislove'' ''202010'' 0 10 (Some [''employee.name'']))]"
proof -
  have r: "fst (search sample_analysis ''mislove'' ''202010'' 0 10 (Some [''employee.name'']) sample_cluster)
     = Inr \<lparr>searchContent = [\<lparr>doc = mislove, score = 1\<rparr>], resultCount = 1\<rparr>"
    by code_simp
  have s: "sent sample_cluster = []"
    by (simp add: sample_cluster_def cluster_of_def)
  have i: "indices sample_cluster EMPLOYEE_INDEX = None"
    "indices sample_cluster ''classes'' = Some \<lparr>searchable = sample_docs, live = sample_docs\<rparr>"
    by (simp_all add: sample_cluster_def cluster_of_def EMPLOYEE_INDEX_def CLASS_INDEX_def)
  have m: "(''mislove'', mislove) \<in> set sample_docs"
    by (simp add: sample_docs_def)
  from search_queries_classes_index_only
    [of sample_analysis "''mislove''" "''202010''" 0 10 "Some [''employee.name'']" sample_cluster]
  show ?thesis using r s i m by simp
qed

text \<open>
  C1. The filter of every search is an either/or rule. A document passes it exactly
  when its \<open>class.termId\<close> is the requested term or its \<open>type\<close> is \<open>employee\<close>; so an
  employee document passes for every requested term, and every returned document passes
  one of the two tests: a returned document of type \<open>class\<close> has the requested term.
\<close>

theorem search_filter_either_or:
  "(should_matches (sr_filter_should (search_request q t mn mx fs)) d \<longleftrightarrow>
      field_value d ''class.termId'' = Some t \<or> field_value d ''type'' = Some ''employee'')
   \<and> (eligible an (search_request q t mn mx fs) d \<longleftrightarrow>
        mm_matches an (sr_must (search_request q t mn mx fs)) d \<and>
        (field_value d ''class.termId'' = Some t \<or> field_value d ''type'' = Some ''employee''))
   \<and> (\<forall>res. fst (search an q t mn mx fs c) = Inr res \<longrightarrow>
        (\<forall>item \<in> set (searchContent res).
           (field_value (doc item) ''class.termId'' = Some t \<or>
            field_value (doc item) ''type'' = Some ''employee'') \<and>
           (field_value (doc item) ''type'' = Some ''class'' \<longrightarrow>
            field_value (doc item) ''class.termId'' = Some t)))"
proof (intro conjI allI impI ballI)
  show "should_matches (sr_filter_should (search_request q t mn mx fs)) d \<longleftrightarrow>
      field_value d ''class.termId'' = Some t \<or> field_value d ''type'' = Some ''employee''"
    by (rule should_matches_search)
  then show "eligible an (search_request q t mn mx fs) d \<longleftrightarrow>
        mm_matches an (sr_must (search_request q t mn mx fs)) d \<and>
        (field_value d ''class.termId'' = Some t \<or> field_value d ''type'' = Some ''employee'')"
    by (simp add: eligible_def)
next
  fix res item
  assume ok: "fst (search an q t mn mx fs c) = Inr res" and item: "item \<in> set (searchContent res)"
  from search_Inr [OF ok] obtain ix where
    res: "searchContent res =
       map to_content (hits (run_search an (search_request q t mn mx fs) ix))"
    by auto
  from item obtain h where h: "h \<in> set (hits (run_search an (search_request q t mn mx fs) ix))"
    and ih: "item = to_content h"
    unfolding res by auto
  from run_search_hits [OF h] obtain stored where
    st: "h = to_hit an (search_request q t mn mx fs) stored"
    and el: "eligible an (search_request q t mn mx fs) (snd stored)"
    by auto
  have src: "hit_source h = snd stored"
    by (simp add: st to_hit_def)
  have same: "field_value (doc item) ''class.termId'' = field_value (snd stored) ''class.termId''"
    "field_value (doc item) ''type'' = field_value (snd stored) ''type''"
    by (simp_all add: ih field_value_content base_field_def under_score_def src)
  from el have "field_value (snd stored) ''class.termId'' = Some t \<or>
      field_value (snd stored) ''type'' = Some ''employee''"
    by (simp add: eligible_def should_matches_search)
  with same show either: "field_value (doc item) ''class.termId'' = Some t \<or>
            field_value (doc item) ''type'' = Some ''employee''"
    by simp
  assume "field_value (doc item) ''type'' = Some ''class''"
  with either show "field_value (doc item) ''class.termId'' = Some t"
    by auto
qed

theorem search_filter_either_or_witness:
  "fst (search sample_analysis ''fundies'' ''202010'' 0 10 (Some [''class.name'']) sample_cluster)
     = Inr \<lparr>searchContent = [\<lparr>doc = fundies, score = 1\<rparr>], resultCount = 1\<rparr>
   \<and> field_value fundies ''type'' = Some ''class''
   \<and> field_value fundies ''class.termId'' = Some ''202010''
   \<and> field_value fundies_2019 ''class.termId'' = Some ''201930''
   \<and> should_matches (sr_filter_should (search_request ''fundies'' ''201930'' 0 10 None)) mislove"
proof -
  have r: "fst (search sample_analysis ''fundies'' ''202010'' 0 10 (Some [''class.name'']) sample_cluster)
     = Inr \<lparr>searchContent = [\<lparr>doc = fundies, score = 1\<rparr>], resultCount = 1\<rparr>"
    by code_simp
  have f: "field_value fundies ''type'' = Some ''class''"
    "field_value fundies_2019 ''class.termId'' = Some ''201930''"
    "field_value mislove ''type'' = Some ''employee''"
    by (simp_all add: field_value_def base_field_def fundies_def fundies_2019_def mislove_def)
  from search_filter_either_or
    [of "''fundies''" "''202010''" 0 10 "Some [''class.name'']" fundies sample_analysis sample_cluster]
  have 1: "field_value fundies ''class.termId'' = Some ''202010''"
    using r f by simp
  from search_filter_either_or
    [of "''fundies''" "''201930''" 0 10 None mislove sample_analysis sample_cluster]
  have 2: "should_matches (sr_filter_should (search_request ''fundies'' ''201930'' 0 10 None)) mislove"
    using f by simp
  from r f 1 2 show ?thesis by simp
qed

lemma before_search_sort:
  fixes a b :: "('s::linorder) hit"
  assumes "before (sr_sort (search_request q t mn mx fs)) a b"
  shows "score (to_content b) < score (to_content a) \<or>
     (score (to_content a) = score (to_content b) \<and>
      (case (field_value (doc (to_content a)) ''class.classId'',
             field_value (doc (to_content b)) ''class.classId'') of
         (Some x, Some y) \<Rightarrow> x \<le> y
       | (None, Some y) \<Rightarrow> False
       | _ \<Rightarrow> True))"
proof -
  have kw: "field_value d ''class.classId.keyword'' = field_value d ''class.classId''" for d
    by (simp add: field_value_def base_field_def)
  have ct: "field_value (doc (to_content h)) ''class.classId'' =
      field_value (hit_source h) ''class.classId''" for h :: "'s hit"
    by (simp add: field_value_content base_field_def under_score_def)
  have sc: "score (to_content h) = hit_score h" for h :: "'s hit"
    by (simp add: to_content_def)
  from assms show ?thesis
    unfolding ct sc
    by (auto simp: search_request_def kw split: option.splits)
qed

lemma search_content_sorted:
  assumes "fst (search an q t mn mx fs c) = Inr res"
  shows "\<exists>hs. searchContent res = map to_content hs \<and>
           sorted_wrt (before (sr_sort (search_request q t mn mx fs))) hs"
proof -
  from search_Inr [OF assms] obtain ix where
    res: "searchContent res =
       map to_content (hits (run_search an (search_request q t mn mx fs) ix))"
    by auto
  have "sorted_wrt (before (sr_sort (search_request q t mn mx fs)))
          (hits (run_search an (search_request q t mn mx fs) ix))"
    by (simp add: run_search_def sorted_sort_hits)
  with res show ?thesis by blast
qed

text \<open>
  C2 (as amended). The returned documents are in falling order of score, and documents
  of equal score are in rising order of \<open>classId\<close> compared as a keyword, character by
  character, a document without \<open>classId\<close> coming last. The order is not numeric:
  at equal score \<open>2500\<close> comes before \<open>900\<close>.
\<close>

theorem search_order_score_then_keyword:
  "fst (search an q t mn mx fs c) = Inr res \<Longrightarrow>
     sorted_wrt
       (\<lambda>a b. score b < score a \<or>
          (score a = score b \<and>
           (case (field_value (doc a) ''class.classId'', field_value (doc b) ''class.classId'') of
              (Some x, Some y) \<Rightarrow> x \<le> y
            | (None, Some y) \<Rightarrow> False
            | _ \<Rightarrow> True)))
       (searchContent res)"
proof -
  assume "fst (search an q t mn mx fs c) = Inr res"
  from search_content_sorted [OF this] obtain hs where
    c: "searchContent res = map to_content hs"
    and s: "sorted_wrt (before (sr_sort (search_request q t mn mx fs))) hs"
    by blast
  show ?thesis
    unfolding c sorted_wrt_map
    by (rule sorted_wrt_mono_rel [OF _ s]) (rule before_search_sort)
qed

theorem search_order_score_then_keyword_witness:
  "fst (search sample_analysis ''topics'' ''202010'' 0 10 (Some [''class.name'']) topics_cluster)
     = Inr \<lparr>searchContent = [\<lparr>doc = topics_2500, score = 1\<rparr>, \<lparr>doc = topics_900, score = 1\<rparr>],
            resultCount = 2\<rparr>
   \<and> field_value topics_2500 ''class.classId'' = Some ''2500''
   \<and> field_value topics_900 ''class.classId'' = Some ''900''
   \<and> ''2500'' \<le> ''900''"
proof -
  have r: "fst (search sample_analysis ''topics'' ''202010'' 0 10 (Some [''class.name'']) topics_cluster)
     = Inr \<lparr>searchContent = [\<lparr>doc = topics_2500, score = 1\<rparr>, \<lparr>doc = topics_900, score = 1\<rparr>],
            resultCount = 2\<rparr>"
    by code_simp
  have f: "field_value topics_2500 ''class.classId'' = Some ''2500''"
    "field_value topics_900 ''class.classId'' = Some ''900''"
    by (simp_all add: field_value_def base_field_def topics_2500_def topics_900_def)
  from search_order_score_then_keyword [OF r] f have "''2500'' \<le> ''900''"
    by simp
  with r f show ?thesis by simp
qed

theorem search_tie_break_counterexample:
  "fst (search sample_analysis ''topics'' ''202010'' 0 10 (Some [''class.name'']) topics_cluster)
     = Inr \<lparr>searchContent = [\<lparr>doc = topics_2500, score = 1\<rparr>, \<lparr>doc = topics_900, score = 1\<rparr>],
            resultCount = 2\<rparr>
   \<and> field_value topics_2500 ''class.classId'' = Some ''2500''
   \<and> field_value topics_900 ''class.classId'' = Some ''900''
   \<and> number_of ''900'' < number_of ''2500''"
proof -
  have "fst (search sample_analysis ''topics'' ''202010'' 0 10 (Some [''class.name'']) topics_cluster)
     = Inr \<lparr>searchContent = [\<lparr>doc = topics_2500, score = 1\<rparr>, \<lparr>doc = topics_900, score = 1\<rparr>],
            resultCount = 2\<rparr>"
    by code_simp
  moreover have "field_value topics_2500 ''class.classId'' = Some ''2500''"
    "field_value topics_900 ''class.classId'' = Some ''900''"
    by (simp_all add: field_value_def base_field_def topics_2500_def topics_900_def)
  moreover have "number_of ''900'' < number_of ''2500''"
    by (simp add: number_of_def)
  ultimately show ?thesis by simp
qed

text \<open>
  C8. \<open>search\<close> does not keep a document of schedule type \<open>Lab\<close> from being the sole top
  hit. The index holds the lecture CS 2500 and its lab CS 2501 of the same term; for the
  query \<open>cs\<close>, first page of one hit and no \<open>searchFields\<close>, both match, the lab with the
  higher score, and the one returned document is the lab: the request sorts by score
  and by \<open>classId\<close> and by nothing else.
\<close>

theorem search_lab_is_top_hit:
  "fst (search sample_analysis ''cs'' ''202010'' 0 1 None lab_cluster)
     = Inr \<lparr>searchContent = [\<lparr>doc = fundies_lab, score = 2\<rparr>], resultCount = 2\<rparr>
   \<and> field_value fundies_lab ''class.scheduleType'' = Some ''Lab''
   \<and> field_value fundies ''class.scheduleType'' = Some ''Lecture''
   \<and> field_value fundies_lab ''class.subject'' = field_value fundies ''class.subject''
   \<and> eligible sample_analysis (search_request ''cs'' ''202010'' 0 1 None) fundies
   \<and> relevance sample_analysis ''cs'' None fundies = 1
   \<and> sr_sort (search_request ''cs'' ''202010'' 0 1 None)
       = [ByScore, ByField ''class.classId.keyword'' Asc]"
proof -
  have "fst (search sample_analysis ''cs'' ''202010'' 0 1 None lab_cluster)
     = Inr \<lparr>searchContent = [\<lparr>doc = fundies_lab, score = 2\<rparr>], resultCount = 2\<rparr>"
    by code_simp
  moreover have "field_value fundies_lab ''class.scheduleType'' = Some ''Lab''"
    "field_value fundies ''class.scheduleType'' = Some ''Lecture''"
    "field_value fundies_lab ''class.subject'' = field_value fundies ''class.subject''"
    by (simp_all add: field_value_def base_field_def fundies_lab_def fundies_def)
  moreover have "eligible sample_analysis (search_request ''cs'' ''202010'' 0 1 None) fundies"
    by code_simp
  moreover have "relevance sample_analysis ''cs'' None fundies = 1"
    by code_simp
  moreover have "sr_sort (search_request ''cs'' ''202010'' 0 1 None)
       = [ByScore, ByField ''class.classId.keyword'' Asc]"
    by (simp add: search_request_def)
  ultimately show ?thesis by simp
qed


text \<open>
  C6. \<open>search\<close> has no test for the empty query: it sends the empty string to the engine
  like any other query. The index holds one offering of the term whose description is
  the empty string. For the query \<open>''\<close> with the window 0 to 10 and no \<open>searchFields\<close>,
  the request is issued with the empty string in its \<open>multi_match\<close>, and the offering
  is returned: the empty string is the term of its keyword sub-field
  \<open>class.desc.keyword\<close>.
\<close>

theorem search_empty_query_returns_document:
  "fst (search sample_analysis [] ''202010'' 0 10 None calculus_cluster)
     = Inr \<lparr>searchContent = [\<lparr>doc = calculus, score = 1\<rparr>], resultCount = 1\<rparr>
   \<and> field_value calculus ''class.desc'' = Some []
   \<and> field_matches sample_analysis [] calculus ''class.desc.keyword''
   \<and> sent (snd (search sample_analysis [] ''202010'' 0 10 None calculus_cluster))
       = [SearchRequest
            \<lparr>sr_index = ''classes'', sr_from = 0, sr_size = 10,
             sr_sort = [ByScore, ByField ''class.classId.keyword'' Asc],
             sr_must = \<lparr>mm_query = [], mm_type = MostFields, mm_fields = None\<rparr>,
             sr_filter_should = [Term ''class.termId'' ''202010'', Term ''type'' ''employee'']\<rparr>]"
proof -
  have "fst (search sample_analysis [] ''202010'' 0 10 None calculus_cluster)
     = Inr \<lparr>searchContent = [\<lparr>doc = calculus, score = 1\<rparr>], resultCount = 1\<rparr>"
    by code_simp
  moreover have "field_value calculus ''class.desc'' = Some []"
    by (simp add: field_value_def base_field_def calculus_def)
  moreover have "field_matches sample_analysis [] calculus ''class.desc.keyword''"
    by code_simp
  moreover have "sent (snd (search sample_analysis [] ''202010'' 0 10 None calculus_cluster))
       = [SearchRequest
            \<lparr>sr_index = ''classes'', sr_from = 0, sr_size = 10,
             sr_sort = [ByScore, ByField ''class.classId.keyword'' Asc],
             sr_must = \<lparr>mm_query = [], mm_type = MostFields, mm_fields = None\<rparr>,
             sr_filter_should = [Term ''class.termId'' ''202010'', Term ''type'' ''employee'']\<rparr>]"
    by (simp add: search_sent search_request_def CLASS_INDEX_def calculus_cluster_def cluster_of_def)
  ultimately show ?thesis by simp
qed

section \<open>Properties of the bulk writes\<close>

lemma chunk_Nil: "n = 0 \<or> xs = [] \<Longrightarrow> chunk xs n = []"
  using chunk.simps [of xs n] by simp

lemma chunk_Cons: "0 < n \<Longrightarrow> xs \<noteq> [] \<Longrightarrow> chunk xs n = take n xs # chunk (drop n xs) n"
  using chunk.simps [of xs n] by simp

lemma concat_chunk: "0 < n \<Longrightarrow> concat (chunk xs n) = xs"
proof (induction xs n rule: chunk.induct)
  case (1 xs n)
  show ?case
  proof (cases "xs = []")
    case True
    then show ?thesis by (simp add: chunk_Nil)
  next
    case False
    with 1 show ?thesis by (simp add: chunk_Cons)
  qed
qed

lemma chunk_parts: "part \<in> set (chunk xs n) \<Longrightarrow> part \<noteq> [] \<and> length part \<le> n"
proof (induction xs n rule: chunk.induct)
  case (1 xs n)
  show ?case
  proof (cases "n = 0 \<or> xs = []")
    case True
    with "1.prems" show ?thesis by (simp add: chunk_Nil)
  next
    case False
    with "1.prems" have "part = take n xs \<or> part \<in> set (chunk (drop n xs) n)"
      by (simp add: chunk_Cons)
    with False "1.IH" show ?thesis by auto
  qed
qed

lemma ceil_div_step:
  assumes "0 < n" "0 < (m::nat)"
  shows "(m + n - 1) div n = Suc ((m - n + n - 1) div n)"
proof (cases "n \<le> m")
  case True
  with assms have "m + n - 1 = (m - 1) + n" by linarith
  then have "(m + n - 1) div n = ((m - 1) + n) div n" by (simp only:)
  also have "\<dots> = Suc ((m - 1) div n)" using assms(1) by (simp only: div_add_self2)
  also have "m - 1 = m - n + n - 1" using True by linarith
  finally show ?thesis .
next
  case False
  with assms have "(m + n - 1) div n = 1"
    by (intro div_nat_eqI) auto
  moreover from False assms have "(m - n + n - 1) div n = 0"
    by simp
  ultimately show ?thesis by (simp only:)
qed

lemma length_chunk: "0 < n \<Longrightarrow> length (chunk xs n) = (length xs + n - 1) div n"
proof (induction xs n rule: chunk.induct)
  case (1 xs n)
  show ?case
  proof (cases "xs = []")
    case True
    with "1.prems" show ?thesis by (simp add: chunk_Nil)
  next
    case False
    with "1.prems" have ne: "\<not> (n = 0 \<or> xs = [])" by simp
    have "length (chunk xs n) = Suc (length (chunk (drop n xs) n))"
      using False "1.prems" by (simp add: chunk_Cons)
    also have "length (chunk (drop n xs) n) = (length (drop n xs) + n - 1) div n"
      by (rule "1.IH" [OF ne "1.prems"])
    also have "length (drop n xs) = length xs - n"
      by simp
    also have "Suc ((length xs - n + n - 1) div n) = (length xs + n - 1) div n"
    proof -
      from False have "0 < length xs" by simp
      from ceil_div_step [OF "1.prems" this] show ?thesis by (rule sym)
    qed
    finally show ?thesis .
  qed
qed

lemma es_bulk_sent: "sent (snd (es_bulk i rf body c)) = sent c @ [BulkRequest i rf body]"
  using transport_sent [of "BulkRequest i rf body" c]
  by (auto simp: es_bulk_def split: prod.splits bool.splits option.splits)

lemma es_bulk_fst:
  "body \<noteq> [] \<Longrightarrow> parse_bulk body \<noteq> None \<Longrightarrow>
     fst (es_bulk i rf body c) = (if delivered c then Inr () else Inl ConnectionError)"
  by (auto simp: es_bulk_def transport_def delivered_def split: list.splits)

lemma es_bulk_faults: "faults (snd (es_bulk i rf body c)) = tl (faults c)"
  by (auto simp: es_bulk_def transport_def split: list.splits option.splits bool.splits)

lemma es_bulk_indices:
  "delivered c \<Longrightarrow> body \<noteq> [] \<Longrightarrow> parse_bulk body = Some ops \<Longrightarrow>
     indices (snd (es_bulk i rf body c)) = (indices c)(i \<mapsto> write_index rf ops (indices c i))"
  by (auto simp: es_bulk_def transport_def delivered_def split: list.splits)

lemma first_fault_cases:
  "first_fault c =
     (case faults c of
        [] \<Rightarrow> None
      | f # fs \<Rightarrow> if f then Some 0 else map_option Suc (first_fault (c\<lparr>faults := fs\<rparr>)))"
  by (simp add: first_fault_def Let_def split: list.splits)

lemma first_fault_delivered: "delivered c \<longleftrightarrow> first_fault c \<noteq> Some 0"
  by (auto simp: first_fault_cases [of c] delivered_def split: list.splits option.splits)

lemma first_fault_tl:
  "delivered c \<Longrightarrow> faults c' = tl (faults c) \<Longrightarrow>
     first_fault c = map_option Suc (first_fault c')"
  by (cases "faults c")
    (auto simp: first_fault_def Let_def delivered_def)

lemma bulk_chain_issued:
  assumes "\<forall>b \<in> set bs. b \<noteq> [] \<and> parse_bulk b \<noteq> None"
  shows "(\<forall>d. first_fault c = Some d \<and> d < length bs \<longrightarrow>
            fst (bulk_chain i bs c) = Inl ConnectionError \<and>
            sent (snd (bulk_chain i bs c)) =
              sent c @ map (BulkRequest i (Some WaitFor)) (take (Suc d) bs))
       \<and> ((\<forall>d. first_fault c = Some d \<longrightarrow> length bs \<le> d) \<longrightarrow>
            fst (bulk_chain i bs c) = Inr () \<and>
            sent (snd (bulk_chain i bs c)) = sent c @ map (BulkRequest i (Some WaitFor)) bs)"
  using assms
proof (induction bs arbitrary: c)
  case Nil
  then show ?case by simp
next
  case (Cons b bs)
  obtain r c' where step: "es_bulk i (Some WaitFor) b c = (r, c')"
    by (cases "es_bulk i (Some WaitFor) b c")
  from Cons.prems have b: "b \<noteq> []" "parse_bulk b \<noteq> None" by simp_all
  from step es_bulk_sent [of i "Some WaitFor" b c]
  have sent: "sent c' = sent c @ [BulkRequest i (Some WaitFor) b]" by simp
  from step es_bulk_faults [of i "Some WaitFor" b c]
  have faults: "faults c' = tl (faults c)" by simp
  from step es_bulk_fst [OF b, of i "Some WaitFor" c]
  have r: "r = (if delivered c then Inr () else Inl ConnectionError)" by simp
  show ?case
  proof (cases "delivered c")
    case False
    then have "first_fault c = Some 0"
      by (simp add: first_fault_delivered)
    with False step r sent show ?thesis by simp
  next
    case True
    with r have ok: "r = Inr ()" by simp
    from first_fault_tl [OF True faults]
    have ff: "first_fault c = map_option Suc (first_fault c')" .
    from Cons.prems have rest: "\<forall>b \<in> set bs. b \<noteq> [] \<and> parse_bulk b \<noteq> None" by simp
    note IH = Cons.IH [OF rest, of c']
    have chain: "bulk_chain i (b # bs) c = bulk_chain i bs c'"
      using step ok by simp
    show ?thesis
    proof (intro conjI allI impI)
      fix d
      assume "first_fault c = Some d \<and> d < length (b # bs)"
      with ff obtain d' where d': "first_fault c' = Some d'" "d = Suc d'" "d' < length bs"
        by (cases "first_fault c'") auto
      with IH have "fst (bulk_chain i bs c') = Inl ConnectionError"
        "sent (snd (bulk_chain i bs c')) =
           sent c' @ map (BulkRequest i (Some WaitFor)) (take (Suc d') bs)"
        by blast+
      with d' sent chain show "fst (bulk_chain i (b # bs) c) = Inl ConnectionError"
        "sent (snd (bulk_chain i (b # bs) c)) =
           sent c @ map (BulkRequest i (Some WaitFor)) (take (Suc d) (b # bs))"
        by simp_all
    next
      assume all: "\<forall>d. first_fault c = Some d \<longrightarrow> length (b # bs) \<le> d"
      have "\<forall>d. first_fault c' = Some d \<longrightarrow> length bs \<le> d"
        using all ff by auto
      with IH have "fst (bulk_chain i bs c') = Inr ()"
        "sent (snd (bulk_chain i bs c')) = sent c' @ map (BulkRequest i (Some WaitFor)) bs"
        by blast+
      with sent chain show "fst (bulk_chain i (b # bs) c) = Inr ()"
        "sent (snd (bulk_chain i (b # bs) c)) =
           sent c @ map (BulkRequest i (Some WaitFor)) (b # bs)"
        by simp_all
    qed
  qed
qed

lemma parse_index_lines:
  "set part \<subseteq> set (Object_keys m) \<Longrightarrow>
     \<exists>ops. parse_bulk (index_lines m part) = Some ops \<and>
       list_all2 (\<lambda>key op. \<exists>s. js_get m key = Some s \<and> op = IndexOp key s) part ops"
proof (induction part)
  case Nil
  then show ?case by (simp add: index_lines_def)
next
  case (Cons key part)
  then have "key \<in> fst ` set m" by (simp add: Object_keys_def)
  then obtain s where s: "js_get m key = Some s"
    by (auto simp: js_get_def dest: weak_map_of_SomeI)
  from Cons obtain ops where ops: "parse_bulk (index_lines m part) = Some ops"
    "list_all2 (\<lambda>key op. \<exists>s. js_get m key = Some s \<and> op = IndexOp key s) part ops"
    by auto
  have "index_lines m (key # part) = IndexLine key # SourceLine (Some s) # index_lines m part"
    by (simp add: index_lines_def s)
  with ops s show ?case
    by (intro exI [of _ "IndexOp key s # ops"]) simp
qed

lemma map_of_put_doc: "map_of (put_doc i s ds) k = (if k = i then Some s else map_of ds k)"
proof -
  have "map_of (filter (\<lambda>e. fst e \<noteq> i) ds) k = (if k = i then None else map_of ds k)"
    by (induction ds) auto
  then show ?thesis
    by (simp add: put_doc_def map_add_def split: option.splits)
qed

lemma map_of_index_ops:
  "list_all2 (\<lambda>key op. \<exists>s. js_get m key = Some s \<and> op = IndexOp key s) part ops \<Longrightarrow>
     map_of (foldl apply_op ds ops) k = (if k \<in> set part then js_get m k else map_of ds k)"
proof (induction part ops arbitrary: ds rule: list_all2_induct)
  case Nil
  then show ?case by simp
next
  case (Cons key part op ops)
  from Cons.hyps obtain s where s: "js_get m key = Some s" "op = IndexOp key s" by blast
  have "map_of (foldl apply_op ds (op # ops)) k =
      (if k \<in> set part then js_get m k else map_of (put_doc key s ds) k)"
    using Cons.IH [of "put_doc key s ds"] s by simp
  with s show ?case
    by (simp add: map_of_put_doc)
qed

lemma bulk_chain_stored:
  assumes "\<forall>part \<in> set parts. part \<noteq> [] \<and> set part \<subseteq> set (Object_keys m)"
    and "fst (bulk_chain i (map (index_lines m) parts) c) = Inr ()"
  shows "stored_source (indices (snd (bulk_chain i (map (index_lines m) parts) c)) i) k =
     (if k \<in> set (concat parts) then js_get m k else stored_source (indices c i) k)"
  using assms
proof (induction parts arbitrary: c)
  case Nil
  then show ?case by simp
next
  case (Cons part parts)
  let ?b = "index_lines m part"
  from Cons.prems(1) have part: "part \<noteq> []" "set part \<subseteq> set (Object_keys m)" by simp_all
  from parse_index_lines [OF part(2)] obtain ops where
    ops: "parse_bulk ?b = Some ops"
    "list_all2 (\<lambda>key op. \<exists>s. js_get m key = Some s \<and> op = IndexOp key s) part ops"
    by blast
  from part(1) have ne: "?b \<noteq> []"
    by (cases part) (simp_all add: index_lines_def)
  obtain r c' where step: "es_bulk i (Some WaitFor) ?b c = (r, c')"
    by (cases "es_bulk i (Some WaitFor) ?b c")
  with Cons.prems(2) have ok: "r = Inr ()"
    by (cases r) simp_all
  with step es_bulk_fst [OF ne, of i "Some WaitFor" c] ops have d: "delivered c"
    by (simp split: if_splits)
  from es_bulk_indices [OF d ne ops(1), of i "Some WaitFor"] step
  have ind: "indices c' i = Some (write_index (Some WaitFor) ops (indices c i))"
    by simp
  have first: "stored_source (indices c' i) k =
      (if k \<in> set part then js_get m k else stored_source (indices c i) k)" for k
    unfolding ind
    by (cases "indices c i")
      (simp_all add: stored_source_def write_index_def Let_def map_of_index_ops [OF ops(2)])
  have chain: "bulk_chain i (map (index_lines m) (part # parts)) c =
      bulk_chain i (map (index_lines m) parts) c'"
    using step ok by simp
  have rest: "\<forall>part \<in> set parts. part \<noteq> [] \<and> set part \<subseteq> set (Object_keys m)"
    using Cons.prems(1) by simp
  have ok': "fst (bulk_chain i (map (index_lines m) parts) c') = Inr ()"
    using Cons.prems(2) unfolding chain .
  from Cons.IH [OF rest ok'] first show ?case
    unfolding chain by simp
qed

text \<open>
  C4. \<open>bulkIndexFromMap\<close> cuts the ids of the map, in their order, into consecutive
  batches: put end to end the batches are the list of ids, so each id is in exactly
  one batch, once; no batch is empty or longer than 100, and there are
  \<open>\<lceil>n / 100\<rceil>\<close> of them for \<open>n\<close> ids. The body of the request of a batch is, for each id
  of the batch in turn, the index action of that id with the document the map has for
  it. The requests are issued one after the other in the order of the batches, each
  once the one before has succeeded: when the request of a batch fails, the requests
  up to that one have been issued and none after it, and the call fails; otherwise the
  call succeeds, the request of every batch has been issued, and the index has, for
  every id of the map, the document of the map.
\<close>

theorem bulkIndexFromMap_sequential_batches:
  "concat (chunk (Object_keys m) 100) = Object_keys m
   \<and> (\<forall>part \<in> set (chunk (Object_keys m) 100).
         part \<noteq> [] \<and> length part \<le> 100 \<and>
         (\<exists>ops. parse_bulk (index_lines m part) = Some ops \<and>
            list_all2 (\<lambda>key op. \<exists>s. js_get m key = Some s \<and> op = IndexOp key s) part ops))
   \<and> length (chunk (Object_keys m) 100) = (length (Object_keys m) + 99) div 100
   \<and> (\<forall>d. first_fault c = Some d \<and> d < length (chunk (Object_keys m) 100) \<longrightarrow>
         fst (bulkIndexFromMap i m c) = Inl ConnectionError \<and>
         sent (snd (bulkIndexFromMap i m c)) =
           sent c @ map (\<lambda>part. BulkRequest i (Some WaitFor) (index_lines m part))
                      (take (Suc d) (chunk (Object_keys m) 100)))
   \<and> ((\<forall>d. first_fault c = Some d \<longrightarrow> length (chunk (Object_keys m) 100) \<le> d) \<longrightarrow>
         fst (bulkIndexFromMap i m c) = Inr () \<and>
         sent (snd (bulkIndexFromMap i m c)) =
           sent c @ map (\<lambda>part. BulkRequest i (Some WaitFor) (index_lines m part))
                      (chunk (Object_keys m) 100) \<and>
         (\<forall>key \<in> set (Object_keys m).
            stored_source (indices (snd (bulkIndexFromMap i m c)) i) key = js_get m key))"
proof -
  let ?parts = "chunk (Object_keys m) 100"
  let ?bodies = "map (index_lines m) ?parts"
  have cover: "concat ?parts = Object_keys m"
    by (simp add: concat_chunk)
  have sub: "set part \<subseteq> set (Object_keys m)" if "part \<in> set ?parts" for part
  proof -
    from that have "set part \<subseteq> set (concat ?parts)" by auto
    then show ?thesis by (simp add: cover)
  qed
  have parts: "\<forall>part \<in> set ?parts.
         part \<noteq> [] \<and> length part \<le> 100 \<and>
         (\<exists>ops. parse_bulk (index_lines m part) = Some ops \<and>
            list_all2 (\<lambda>key op. \<exists>s. js_get m key = Some s \<and> op = IndexOp key s) part ops)"
    using chunk_parts parse_index_lines sub by blast
  have count: "length ?parts = (length (Object_keys m) + 99) div 100"
    by (simp add: length_chunk)
  have bodies: "\<forall>b \<in> set ?bodies. b \<noteq> [] \<and> parse_bulk b \<noteq> None"
  proof
    fix b
    assume "b \<in> set ?bodies"
    then obtain part where p: "part \<in> set ?parts" and b: "b = index_lines m part"
      by auto
    from p parts have "part \<noteq> []" "parse_bulk (index_lines m part) \<noteq> None"
      by auto
    then show "b \<noteq> [] \<and> parse_bulk b \<noteq> None"
      by (cases part) (simp_all add: b index_lines_def)
  qed
  note issued = bulk_chain_issued [OF bodies, of c i]
  have fail: "fst (bulkIndexFromMap i m c) = Inl ConnectionError \<and>
         sent (snd (bulkIndexFromMap i m c)) =
           sent c @ map (\<lambda>part. BulkRequest i (Some WaitFor) (index_lines m part))
                      (take (Suc d) ?parts)"
    if "first_fault c = Some d \<and> d < length ?parts" for d
    using issued that by (simp add: bulkIndexFromMap_def take_map comp_def)
  have pass: "fst (bulkIndexFromMap i m c) = Inr () \<and>
         sent (snd (bulkIndexFromMap i m c)) =
           sent c @ map (\<lambda>part. BulkRequest i (Some WaitFor) (index_lines m part)) ?parts \<and>
         (\<forall>key \<in> set (Object_keys m).
            stored_source (indices (snd (bulkIndexFromMap i m c)) i) key = js_get m key)"
    if all: "\<forall>d. first_fault c = Some d \<longrightarrow> length ?parts \<le> d"
  proof -
    from issued all have ok: "fst (bulkIndexFromMap i m c) = Inr ()"
      and s: "sent (snd (bulkIndexFromMap i m c)) =
           sent c @ map (\<lambda>part. BulkRequest i (Some WaitFor) (index_lines m part)) ?parts"
      by (simp_all add: bulkIndexFromMap_def comp_def)
    have "\<forall>part \<in> set ?parts. part \<noteq> [] \<and> set part \<subseteq> set (Object_keys m)"
      using parts sub by blast
    from bulk_chain_stored [OF this, of i c] ok
    have "stored_source (indices (snd (bulkIndexFromMap i m c)) i) key =
        (if key \<in> set (concat ?parts) then js_get m key else stored_source (indices c i) key)" for key
      by (simp add: bulkIndexFromMap_def)
    with ok s show ?thesis
      by (simp add: cover)
  qed
  from cover parts count fail pass show ?thesis
    by blast
qed

theorem bulkIndexFromMap_sequential_batches_witness:
  "length (Object_keys many_docs) = 225
   \<and> first_fault (cluster_of []) = None
   \<and> fst (bulkIndexFromMap ''classes'' many_docs (cluster_of [])) = Inr ()
   \<and> length (sent (snd (bulkIndexFromMap ''classes'' many_docs (cluster_of [])))) = 3
   \<and> stored_source
        (indices (snd (bulkIndexFromMap ''classes'' many_docs (cluster_of []))) ''classes'') ''aa''
       = Some [(''type'', ''class'')]
   \<and> first_fault flaky_cluster = Some 1
   \<and> fst (bulkIndexFromMap ''classes'' many_docs flaky_cluster) = Inl ConnectionError
   \<and> length (sent (snd (bulkIndexFromMap ''classes'' many_docs flaky_cluster))) = 2"
proof -
  let ?parts = "chunk (Object_keys many_docs) 100"
  have n: "length (Object_keys many_docs) = 225"
    by (simp add: Object_keys_def many_docs_def many_ids_def)
  have f: "first_fault (cluster_of []) = None" "sent (cluster_of []) = []"
    "first_fault flaky_cluster = Some 1" "sent flaky_cluster = []"
    by (simp_all add: first_fault_def cluster_of_def flaky_cluster_def)
  have aa: "''aa'' \<in> set (Object_keys many_docs)"
    "js_get many_docs ''aa'' = Some [(''type'', ''class'')]"
    by (simp_all add: Object_keys_def js_get_def many_docs_def many_ids_def)
  note good = bulkIndexFromMap_sequential_batches [of many_docs "cluster_of []" "''classes''"]
  note bad = bulkIndexFromMap_sequential_batches [of many_docs flaky_cluster "''classes''"]
  from good n have l: "length ?parts = 3"
    by simp
  from good f(1) have ok: "fst (bulkIndexFromMap ''classes'' many_docs (cluster_of [])) = Inr ()"
    and s: "sent (snd (bulkIndexFromMap ''classes'' many_docs (cluster_of []))) =
      sent (cluster_of []) @
      map (\<lambda>part. BulkRequest ''classes'' (Some WaitFor) (index_lines many_docs part)) ?parts"
    and st: "\<forall>key \<in> set (Object_keys many_docs).
      stored_source (indices (snd (bulkIndexFromMap ''classes'' many_docs (cluster_of []))) ''classes'') key
        = js_get many_docs key"
    by simp_all
  from s l f(2) have 3: "length (sent (snd (bulkIndexFromMap ''classes'' many_docs (cluster_of [])))) = 3"
    by simp
  from st aa have stored: "stored_source
        (indices (snd (bulkIndexFromMap ''classes'' many_docs (cluster_of []))) ''classes'') ''aa''
       = Some [(''type'', ''class'')]"
    by simp
  from bad f(3) l have failed: "fst (bulkIndexFromMap ''classes'' many_docs flaky_cluster) = Inl ConnectionError"
    and s2: "sent (snd (bulkIndexFromMap ''classes'' many_docs flaky_cluster)) =
      sent flaky_cluster @
      map (\<lambda>part. BulkRequest ''classes'' (Some WaitFor) (index_lines many_docs part))
        (take (Suc 1) ?parts)"
    by simp_all
  from s2 l f(4) have 2: "length (sent (snd (bulkIndexFromMap ''classes'' many_docs flaky_cluster))) = 2"
    by simp
  from n f ok 3 stored failed 2 show ?thesis by simp
qed

lemma bulkUpdateFromMap_sent:
  "sent (snd (bulkUpdateFromMap i m c)) = sent c @ [BulkRequest i None (update_lines m)]"
  by (simp add: bulkUpdateFromMap_def es_bulk_sent)

lemma bulkUpdateFromMap_searchable:
  "indices (snd (bulkUpdateFromMap i m c)) i = Some after \<Longrightarrow>
     searchable after = (case indices c i of None \<Rightarrow> [] | Some ix \<Rightarrow> searchable ix)"
  by (auto simp: bulkUpdateFromMap_def es_bulk_def transport_def write_index_def Let_def
      split: list.splits bool.splits option.splits if_splits)

text \<open>
  C3. Not every write asks for visibility: \<open>bulkIndexFromMap\<close> sends
  \<open>refresh: 'wait_for'\<close>, \<open>bulkUpdateFromMap\<close> sends no \<open>refresh\<close>. Here the name of a
  searchable document is updated: the update is written (a multi-get reads the new
  name), and a search issued after the call has returned does not find the document
  under the new name and still finds it under the old one. The same document written
  through \<open>bulkIndexFromMap\<close> is found at once.
\<close>

theorem bulkUpdateFromMap_not_visible:
  "fst (bulkUpdateFromMap ''classes'' renamed (cluster_of [(''t900'', topics_900)])) = Inr ()
   \<and> sent (snd (bulkUpdateFromMap ''classes'' renamed (cluster_of [(''t900'', topics_900)])))
       = [BulkRequest ''classes'' None
            [UpdateLine ''t900'', DocLine (Some [(''class.name'', ''Seminar'')])]]
   \<and> fst (getMapFromIDs ''classes'' [''t900'']
            (snd (bulkUpdateFromMap ''classes'' renamed (cluster_of [(''t900'', topics_900)]))))
       = Inr [(''t900'', [(''type'', ''class''), (''class.termId'', ''202010''),
                          (''class.classId'', ''900''), (''class.name'', ''Seminar'')])]
   \<and> fst (search sample_analysis ''seminar'' ''202010'' 0 10 (Some [''class.name''])
            (snd (bulkUpdateFromMap ''classes'' renamed (cluster_of [(''t900'', topics_900)]))))
       = Inr \<lparr>searchContent = [], resultCount = 0\<rparr>
   \<and> fst (search sample_analysis ''topics'' ''202010'' 0 10 (Some [''class.name''])
            (snd (bulkUpdateFromMap ''classes'' renamed (cluster_of [(''t900'', topics_900)]))))
       = Inr \<lparr>searchContent = [\<lparr>doc = topics_900, score = 1\<rparr>], resultCount = 1\<rparr>
   \<and> fst (search sample_analysis ''seminar'' ''202010'' 0 10 (Some [''class.name''])
            (snd (bulkIndexFromMap ''classes''
                    [(''t900'', [(''type'', ''class''), (''class.termId'', ''202010''),
                                 (''class.classId'', ''900''), (''class.name'', ''Seminar'')])]
                    (cluster_of [(''t900'', topics_900)]))))
       = Inr \<lparr>searchContent =
                [\<lparr>doc = [(''type'', ''class''), (''class.termId'', ''202010''),
                          (''class.classId'', ''900''), (''class.name'', ''Seminar'')],
                  score = 1\<rparr>],
              resultCount = 1\<rparr>"
  by code_simp

section \<open>Properties of \<open>getMapFromIDs\<close>\<close>

lemma map_of_assign: "map_of (assign k v es) = (map_of es)(k \<mapsto> v)"
  by (induction es) auto

lemma keys_assign: "fst ` set (assign k v es) = insert k (fst ` set es)"
  by (induction es) auto

lemma distinct_assign: "distinct (map fst es) \<Longrightarrow> distinct (map fst (assign k v es))"
  by (induction es) (auto simp: keys_assign)

lemma collect_found_lookup:
  "map_of (foldl collect_found acc (map (mget_entry idx) ids)) k =
     (if k \<in> set ids \<and> stored_source idx k \<noteq> None then stored_source idx k else map_of acc k)"
proof (induction ids arbitrary: acc)
  case Nil
  then show ?case by simp
next
  case (Cons i ids)
  show ?case
  proof (cases "stored_source idx i")
    case None
    with Cons.IH [of acc] show ?thesis
      by (auto simp: mget_entry_def)
  next
    case (Some s)
    with Cons.IH [of "assign i s acc"] show ?thesis
      by (auto simp: mget_entry_def map_of_assign)
  qed
qed

lemma collect_found_distinct:
  "distinct (map fst acc) \<Longrightarrow> distinct (map fst (foldl collect_found acc docs))"
proof (induction docs arbitrary: acc)
  case Nil
  then show ?case by simp
next
  case (Cons d docs)
  then show ?case
    by (cases d) (simp_all add: distinct_assign)
qed

text \<open>
  C5. When the request is delivered, \<open>getMapFromIDs\<close> returns a map: its keys are the
  requested ids that have a document in the index, each once, and each key has the
  source stored under it. A requested id without a document is left out and the call
  still succeeds; the only failure is that of the request itself.
\<close>

theorem getMapFromIDs_found_only:
  "(delivered c \<longrightarrow>
      (\<exists>result. fst (getMapFromIDs i ids c) = Inr result
         \<and> set (Object_keys result) = {k \<in> set ids. stored_source (indices c i) k \<noteq> None}
         \<and> distinct (Object_keys result)
         \<and> (\<forall>k \<in> set (Object_keys result). js_get result k = stored_source (indices c i) k)))
   \<and> (\<not> delivered c \<longrightarrow> fst (getMapFromIDs i ids c) = Inl ConnectionError)"
proof (intro conjI impI)
  assume d: "delivered c"
  let ?result = "foldl collect_found [] (map (mget_entry (indices c i)) ids)"
  have r: "fst (getMapFromIDs i ids c) = Inr ?result"
    using d by (auto simp: getMapFromIDs_def es_mget_def transport_def delivered_def
        split: list.splits)
  have look: "map_of ?result k =
      (if k \<in> set ids then stored_source (indices c i) k else None)" for k
    by (simp add: collect_found_lookup)
  have "set (Object_keys ?result) = dom (map_of ?result)"
    by (simp add: Object_keys_def dom_map_of_conv_image_fst)
  also have "\<dots> = {k \<in> set ids. stored_source (indices c i) k \<noteq> None}"
    by (auto simp: look dom_def)
  finally have keys: "set (Object_keys ?result) =
      {k \<in> set ids. stored_source (indices c i) k \<noteq> None}" .
  have dist: "distinct (Object_keys ?result)"
    unfolding Object_keys_def by (rule collect_found_distinct) simp
  have vals: "\<forall>k \<in> set (Object_keys ?result). js_get ?result k = stored_source (indices c i) k"
    unfolding keys by (simp add: js_get_def look)
  from r keys dist vals
  show "\<exists>result. fst (getMapFromIDs i ids c) = Inr result
         \<and> set (Object_keys result) = {k \<in> set ids. stored_source (indices c i) k \<noteq> None}
         \<and> distinct (Object_keys result)
         \<and> (\<forall>k \<in> set (Object_keys result). js_get result k = stored_source (indices c i) k)"
    by blast
next
  assume "\<not> delivered c"
  then show "fst (getMapFromIDs i ids c) = Inl ConnectionError"
    by (auto simp: getMapFromIDs_def es_mget_def transport_def delivered_def split: list.splits)
qed

theorem getMapFromIDs_found_only_witness:
  "delivered sample_cluster
   \<and> fst (getMapFromIDs ''classes'' [''mislove'', ''nobody''] sample_cluster)
       = Inr [(''mislove'', mislove)]
   \<and> stored_source (indices sample_cluster ''classes'') ''mislove'' = Some mislove
   \<and> stored_source (indices sample_cluster ''classes'') ''nobody'' = None"
proof -
  let ?stored = "stored_source (indices sample_cluster ''classes'')"
  have d: "delivered sample_cluster"
    by (simp add: delivered_def sample_cluster_def cluster_of_def)
  have r: "fst (getMapFromIDs ''classes'' [''mislove'', ''nobody''] sample_cluster)
       = Inr [(''mislove'', mislove)]"
    by code_simp
  from getMapFromIDs_found_only [of sample_cluster "''classes''" "[''mislove'', ''nobody'']"] d
  obtain result where res: "fst (getMapFromIDs ''classes'' [''mislove'', ''nobody''] sample_cluster) = Inr result"
    and keys: "set (Object_keys result) = {k \<in> set [''mislove'', ''nobody'']. ?stored k \<noteq> None}"
    and vals: "\<forall>k \<in> set (Object_keys result). js_get result k = ?stored k"
    by blast
  from res r have result: "result = [(''mislove'', mislove)]"
    by simp
  from vals have 1: "?stored ''mislove'' = Some mislove"
    by (simp add: result Object_keys_def js_get_def)
  have "''nobody'' \<notin> set (Object_keys result)"
    by (simp add: result Object_keys_def)
  with keys have "\<not> (''nobody'' \<in> set [''mislove'', ''nobody''] \<and> ?stored ''nobody'' \<noteq> None)"
    by blast
  then have 2: "?stored ''nobody'' = None"
    by simp
  from d r 1 2 show ?thesis by simp
qed

section \<open>Properties of \<open>getSubjectsFromClasses\<close>\<close>















end
